theory Spec2Isabelle
  imports Complex_Main "HOL-Library.Sublist" "HOL-Library.Multiset"
begin

section \<open>Policy mining from agent behaviour logs\<close>

text \<open>
  A shallow embedding of \<^verbatim>\<open>aumai_policyminer\<close> (\<^verbatim>\<open>models.py\<close> and
  \<^verbatim>\<open>core.py\<close>).

  Conventions of the model.
  \<^item> A Python \<^verbatim>\<open>float\<close> is an exact rational number (\<^typ>\<open>rat\<close>): divisions and
    comparisons are exact, \<^verbatim>\<open>round(x, 6)\<close> and the \<^verbatim>\<open>.1f\<close>/\<^verbatim>\<open>.2f\<close> formats round
    the exact value half-to-even, as Python does on the exact value of a float. The
    binary value of a float is rarely an exact decimal tie, so on a tie of the rational
    the last digit can differ from Python's. Infinities and NaN do not exist in the
    model.
  \<^item> A Python \<^verbatim>\<open>str\<close> is a \<^typ>\<open>string\<close> whose characters are the code points
    0 to 255.
  \<^item> A value of type \<^verbatim>\<open>Any\<close> is a JSON-shaped value (\<open>pyval\<close>), which is what
    \<^verbatim>\<open>json.loads\<close> hands to the models.
  \<^item> A \<^verbatim>\<open>dict\<close> (and a \<^verbatim>\<open>Counter\<close>) is an association list in insertion order,
    the order in which Python iterates over it. That the keys of the context of a log
    are distinct is the predicate \<open>well_formed\<close>.
  \<^item> The built-in \<^verbatim>\<open>str()\<close>, applied by the extractor to context values of any
    type, is a parameter \<open>py_str\<close> of the model; the clock read by
    \<^verbatim>\<open>datetime.utcnow().isoformat()\<close> is a parameter \<open>now\<close>.
  \<^item> An exception is a value \<open>Inl e\<close> of the result type \<open>error + 'a\<close>.
\<close>

subsection \<open>Errors and values\<close>

datatype error =
    ZeroDivisionError
  | ValueError
  | ValidationError "string list"

text \<open>Sequencing of steps that may raise: the first exception ends the computation.\<close>

definition then_do :: "error + 'a \<Rightarrow> ('a \<Rightarrow> error + 'b) \<Rightarrow> error + 'b" where
  "then_do m f = (case m of Inl e \<Rightarrow> Inl e | Inr x \<Rightarrow> f x)"

datatype pyval =
    PNone
  | PBool bool
  | PInt int
  | PFloat rat
  | PStr string
  | PList "pyval list"
  | PDict "(string \<times> pyval) list"

text \<open>\<^verbatim>\<open>a / b\<close> on numbers: raises on a zero divisor.\<close>

definition py_truediv :: "rat \<Rightarrow> rat \<Rightarrow> error + rat" where
  "py_truediv a b = (if b = 0 then Inl ZeroDivisionError else Inr (a / b))"

subsection \<open>Rounding and number formatting\<close>

definition round_half_even :: "rat \<Rightarrow> int" where
  "round_half_even x =
     (let f = \<lfloor>x\<rfloor>; d = x - of_int f
      in if d < 1 / 2 then f
         else if 1 / 2 < d then f + 1
         else if even f then f else f + 1)"

text \<open>\<^verbatim>\<open>round(x, ndigits)\<close>.\<close>

definition py_round :: "rat \<Rightarrow> nat \<Rightarrow> rat" where
  "py_round x ndigits = of_int (round_half_even (x * 10 ^ ndigits)) / 10 ^ ndigits"

definition digit_char :: "nat \<Rightarrow> char" where
  "digit_char d = ''0123456789'' ! d"

fun dec_digits :: "nat \<Rightarrow> string" where
  "dec_digits n =
     (if n < 10 then [digit_char n] else dec_digits (n div 10) @ [digit_char (n mod 10)])"

declare dec_digits.simps [simp del]

definition zero_pad :: "nat \<Rightarrow> string \<Rightarrow> string" where
  "zero_pad w s = replicate (w - length s) (CHR ''0'') @ s"

text \<open>\<^verbatim>\<open>f"{n:04d}"\<close> for a non-negative \<open>n\<close>.\<close>

definition fmt_04d :: "nat \<Rightarrow> string" where
  "fmt_04d n = zero_pad 4 (dec_digits n)"

text \<open>\<^verbatim>\<open>f"{x:.<d>f}"\<close>: fixed-point notation with \<open>d\<close> digits after the point.\<close>

definition fmt_fixed :: "nat \<Rightarrow> rat \<Rightarrow> string" where
  "fmt_fixed d x =
     (let n = nat (round_half_even (\<bar>x\<bar> * 10 ^ d))
      in (if x < 0 then ''-'' else '''')
         @ dec_digits (n div 10 ^ d)
         @ (if d = 0 then '''' else ''.'' @ zero_pad d (dec_digits (n mod 10 ^ d))))"

subsection \<open>Text: \<^verbatim>\<open>repr\<close> and \<^verbatim>\<open>strip\<close>\<close>

definition hex_char :: "nat \<Rightarrow> char" where
  "hex_char d = ''0123456789abcdef'' ! d"

definition py_printable :: "char \<Rightarrow> bool" where
  "py_printable c =
     (let n = (of_char c :: nat)
      in 32 \<le> n \<and> n \<noteq> 127 \<and> \<not> (128 \<le> n \<and> n \<le> 160) \<and> n \<noteq> 173)"

definition repr_char :: "char \<Rightarrow> char \<Rightarrow> string" where
  "repr_char quote c =
     (if c = quote \<or> c = CHR 0x5C then [CHR 0x5C, c]
      else if c = CHR 0x09 then [CHR 0x5C, CHR ''t'']
      else if c = CHR 0x0A then [CHR 0x5C, CHR ''n'']
      else if c = CHR 0x0D then [CHR 0x5C, CHR ''r'']
      else if py_printable c then [c]
      else [CHR 0x5C, CHR ''x'', hex_char (of_char c div 16), hex_char (of_char c mod 16)])"

text \<open>
  \<^verbatim>\<open>repr(s)\<close> of a text \<open>s\<close>: in single quotes, unless \<open>s\<close> holds a single quote and
  no double quote, and then in double quotes.
\<close>

definition py_repr :: "string \<Rightarrow> string" where
  "py_repr s =
     (let quote = (if CHR 0x27 \<in> set s \<and> CHR 0x22 \<notin> set s then CHR 0x22 else CHR 0x27)
      in [quote] @ concat (map (repr_char quote) s) @ [quote])"

definition py_isspace :: "char \<Rightarrow> bool" where
  "py_isspace c =
     (let n = (of_char c :: nat)
      in (9 \<le> n \<and> n \<le> 13) \<or> (28 \<le> n \<and> n \<le> 32) \<or> n = 133 \<or> n = 160)"

text \<open>\<^verbatim>\<open>s.strip()\<close>.\<close>

definition py_strip :: "string \<Rightarrow> string" where
  "py_strip s = rev (dropWhile py_isspace (rev (dropWhile py_isspace s)))"

subsection \<open>The models (\<^verbatim>\<open>models.py\<close>)\<close>

record BehaviorLog =
  log_id :: string
  agent_id :: string
  timestamp :: string
  action :: string
  context' :: "(string \<times> pyval) list"
  outcome :: string

definition must_not_be_blank :: "string \<Rightarrow> error + string" where
  "must_not_be_blank value =
     (if py_strip value = [] then Inl ValueError else Inr (py_strip value))"

text \<open>
  A model is built by validating its fields in the order of their declaration; the
  names of all fields that fail are collected in one \<open>ValidationError\<close>.
\<close>

definition failed :: "string \<Rightarrow> bool \<Rightarrow> string list" where
  "failed field ok = (if ok then [] else [field])"

definition failed_validator :: "string \<Rightarrow> error + 'a \<Rightarrow> string list" where
  "failed_validator field r = (case r of Inl e \<Rightarrow> [field] | Inr v \<Rightarrow> [])"

definition validated :: "error + string \<Rightarrow> string" where
  "validated r = (case r of Inl e \<Rightarrow> [] | Inr v \<Rightarrow> v)"

text \<open>
  \<^verbatim>\<open>BehaviorLog(log_id=..., agent_id=..., timestamp=..., action=..., context=...,
  outcome=...)\<close>; an argument that is left out is \<open>None\<close> here and takes its default.
\<close>

definition make_BehaviorLog ::
  "string \<Rightarrow> string \<Rightarrow> string \<Rightarrow> string option \<Rightarrow> string \<Rightarrow> (string \<times> pyval) list option
   \<Rightarrow> string option \<Rightarrow> error + BehaviorLog" where
  "make_BehaviorLog now lid aid ts act ctx out =
     (let errs = failed_validator ''log_id'' (must_not_be_blank lid)
               @ failed_validator ''agent_id'' (must_not_be_blank aid)
               @ failed_validator ''action'' (must_not_be_blank act)
      in if errs \<noteq> [] then Inl (ValidationError errs)
         else Inr \<lparr> log_id = validated (must_not_be_blank lid),
                    agent_id = validated (must_not_be_blank aid),
                    timestamp = (case ts of None \<Rightarrow> now | Some t \<Rightarrow> t),
                    action = validated (must_not_be_blank act),
                    context' = (case ctx of None \<Rightarrow> [] | Some c \<Rightarrow> c),
                    outcome = (case out of None \<Rightarrow> ''success'' | Some s \<Rightarrow> s) \<rparr>)"

record MinedPolicy =
  policy_id :: string
  antecedent :: "(string \<times> pyval) list"
  consequent :: string
  support :: rat
  confidence :: rat
  lift :: rat
  description :: string


definition make_MinedPolicy ::
  "string \<Rightarrow> (string \<times> pyval) list \<Rightarrow> string \<Rightarrow> rat \<Rightarrow> rat \<Rightarrow> rat option \<Rightarrow> string option
   \<Rightarrow> error + MinedPolicy" where
  "make_MinedPolicy pid ant cons sup_v conf_v lift_v descr =
     (let l = (case lift_v of None \<Rightarrow> 1 | Some x \<Rightarrow> x);
          errs = failed ''support'' (0 \<le> sup_v \<and> sup_v \<le> 1)
               @ failed ''confidence'' (0 \<le> conf_v \<and> conf_v \<le> 1)
               @ failed ''lift'' (0 \<le> l)
      in if errs \<noteq> [] then Inl (ValidationError errs)
         else Inr \<lparr> policy_id = pid, antecedent = ant, consequent = cons, support = sup_v,
                    confidence = conf_v, lift = l,
                    description = (case descr of None \<Rightarrow> '''' | Some d \<Rightarrow> d) \<rparr>)"

record PolicySet =
  name :: string
  source_logs :: int
  policies :: "MinedPolicy list"
  generated_at :: string


definition make_PolicySet ::
  "string \<Rightarrow> string option \<Rightarrow> int option \<Rightarrow> MinedPolicy list option \<Rightarrow> string option
   \<Rightarrow> error + PolicySet" where
  "make_PolicySet now nm src pols gen =
     (let n = (case src of None \<Rightarrow> 0 | Some k \<Rightarrow> k);
          errs = failed ''source_logs'' (0 \<le> n)
      in if errs \<noteq> [] then Inl (ValidationError errs)
         else Inr \<lparr> name = (case nm of None \<Rightarrow> ''Mined Policy Set'' | Some s \<Rightarrow> s),
                    source_logs = n,
                    policies = (case pols of None \<Rightarrow> [] | Some ps \<Rightarrow> ps),
                    generated_at = (case gen of None \<Rightarrow> now | Some g \<Rightarrow> g) \<rparr>)"

text \<open>
  \<^verbatim>\<open>sorted(xs, key=key, reverse=True)\<close> and \<^verbatim>\<open>xs.sort(key=key, reverse=True)\<close>:
  Python's sort is stable, also when reversed, so the result is the stable sort by
  descending key.
\<close>

definition sorted_reverse :: "('a \<Rightarrow> rat) \<Rightarrow> 'a list \<Rightarrow> 'a list" where
  "sorted_reverse key xs = sort_key (\<lambda>x. - key x) xs"



subsection \<open>Counters\<close>

text \<open>
  A \<^verbatim>\<open>Counter\<close> is a dictionary from keys to counts. \<^verbatim>\<open>c[k] += 1\<close> adds one to the count
  of a key that is present, in place, and puts a new key with count 1 after all the
  others; \<^verbatim>\<open>c[k]\<close> is 0 for a key that is absent.
\<close>

fun counter_incr :: "'k \<Rightarrow> ('k \<times> nat) list \<Rightarrow> ('k \<times> nat) list" where
  "counter_incr k [] = [(k, 1)]"
| "counter_incr k ((k', c) # rest) =
     (if k = k' then (k', c + 1) # rest else (k', c) # counter_incr k rest)"

definition counter_get :: "('k \<times> nat) list \<Rightarrow> 'k \<Rightarrow> nat" where
  "counter_get c k = (case map_of c k of None \<Rightarrow> 0 | Some n \<Rightarrow> n)"

text \<open>\<^verbatim>\<open>Counter(iterable)\<close>.\<close>

definition Counter :: "'k list \<Rightarrow> ('k \<times> nat) list" where
  "Counter xs = fold counter_incr xs []"

subsection \<open>The extractor (\<^verbatim>\<open>core.py\<close>)\<close>

record PolicyExtractor =
  min_support :: rat
  min_confidence :: rat
  min_lift :: rat

text \<open>\<^verbatim>\<open>PolicyExtractor.__init__\<close> with its defaults.\<close>

definition PolicyExtractor_init :: "rat option \<Rightarrow> rat option \<Rightarrow> rat option \<Rightarrow> PolicyExtractor" where
  "PolicyExtractor_init ms mc ml =
     \<lparr> min_support = (case ms of None \<Rightarrow> 5 / 100 | Some x \<Rightarrow> x),
       min_confidence = (case mc of None \<Rightarrow> 6 / 10 | Some x \<Rightarrow> x),
       min_lift = (case ml of None \<Rightarrow> 1 | Some x \<Rightarrow> x) \<rparr>"

type_synonym counters = "((string \<times> string) \<times> nat) list \<times> ((string \<times> string \<times> string) \<times> nat) list"

text \<open>
  The counting pass. The body of the inner loop, for one item \<open>(key, value)\<close> of the
  context of a log with action \<open>act\<close>; the state is the pair
  \<open>(antecedent_counts, cooccurrence_counts)\<close>.
\<close>

definition count_item :: "(pyval \<Rightarrow> string) \<Rightarrow> string \<Rightarrow> string \<times> pyval \<Rightarrow> counters \<Rightarrow> counters" where
  "count_item py_str act item cs =
     (let key = fst item; str_val = py_str (snd item)
      in (counter_incr (key, str_val) (fst cs), counter_incr (key, str_val, act) (snd cs)))"

definition count_log :: "(pyval \<Rightarrow> string) \<Rightarrow> BehaviorLog \<Rightarrow> counters \<Rightarrow> counters" where
  "count_log py_str entry cs = fold (count_item py_str (action entry)) (context' entry) cs"

definition count_logs :: "(pyval \<Rightarrow> string) \<Rightarrow> BehaviorLog list \<Rightarrow> counters" where
  "count_logs py_str logs = fold (count_log py_str) logs ([], [])"

text \<open>The text of the \<^verbatim>\<open>description\<close> field, from the values before rounding.\<close>

definition describe :: "string \<Rightarrow> string \<Rightarrow> string \<Rightarrow> rat \<Rightarrow> rat \<Rightarrow> rat \<Rightarrow> string" where
  "describe ctx_key ctx_val act support_v confidence_v lift_v =
     ''When '' @ ctx_key @ ''='' @ py_repr ctx_val @ '', agents perform '' @ [CHR 0x27] @ act
     @ [CHR 0x27] @ '' with '' @ fmt_fixed 1 (confidence_v * 100) @ ''% confidence (support=''
     @ fmt_fixed 1 (support_v * 100) @ ''%, lift='' @ fmt_fixed 2 lift_v @ '')''"

text \<open>
  The scoring pass. The body of the loop over \<^verbatim>\<open>cooccurrence_counts.items()\<close>, for
  one item; the state is the pair \<open>(policies, policy_counter)\<close>. \<^verbatim>\<open>continue\<close> hands the
  state on unchanged.
\<close>

definition score_item ::
  "PolicyExtractor \<Rightarrow> nat \<Rightarrow> ((string \<times> string) \<times> nat) list \<Rightarrow> (string \<times> nat) list
   \<Rightarrow> (string \<times> string \<times> string) \<times> nat \<Rightarrow> MinedPolicy list \<times> nat
   \<Rightarrow> error + MinedPolicy list \<times> nat" where
  "score_item self total_n antecedent_counts action_counts item st =
     (let ctx_key = fst (fst item); ctx_val = fst (snd (fst item)); act = snd (snd (fst item));
          co_count = snd item
      in then_do (py_truediv (of_nat co_count) (of_nat total_n)) (\<lambda>support_v.
         if support_v < min_support self then Inr st
         else
           let antecedent_count = counter_get antecedent_counts (ctx_key, ctx_val)
           in then_do (if antecedent_count > 0
                       then py_truediv (of_nat co_count) (of_nat antecedent_count)
                       else Inr 0) (\<lambda>confidence_v.
              if confidence_v < min_confidence self then Inr st
              else
                then_do (py_truediv (of_nat (counter_get action_counts act)) (of_nat total_n))
                  (\<lambda>action_freq.
                then_do (if action_freq > 0 then py_truediv confidence_v action_freq else Inr 0)
                  (\<lambda>lift_v.
                if lift_v < min_lift self then Inr st
                else
                  let policy_counter = snd st + 1
                  in then_do
                       (make_MinedPolicy (''policy_'' @ fmt_04d policy_counter)
                          [(ctx_key, PStr ctx_val)] act
                          (py_round support_v 6) (py_round confidence_v 6)
                          (Some (py_round lift_v 6))
                          (Some (describe ctx_key ctx_val act support_v confidence_v lift_v)))
                       (\<lambda>p. Inr (fst st @ [p], policy_counter)))))))"

fun score_loop ::
  "PolicyExtractor \<Rightarrow> nat \<Rightarrow> ((string \<times> string) \<times> nat) list \<Rightarrow> (string \<times> nat) list
   \<Rightarrow> ((string \<times> string \<times> string) \<times> nat) list \<Rightarrow> MinedPolicy list \<times> nat
   \<Rightarrow> error + MinedPolicy list \<times> nat" where
  "score_loop self total_n antecedent_counts action_counts [] st = Inr st"
| "score_loop self total_n antecedent_counts action_counts (item # items) st =
     then_do (score_item self total_n antecedent_counts action_counts item st)
       (score_loop self total_n antecedent_counts action_counts items)"

text \<open>\<^verbatim>\<open>PolicyExtractor.extract\<close>.\<close>

definition PolicyExtractor_extract ::
  "(pyval \<Rightarrow> string) \<Rightarrow> string \<Rightarrow> PolicyExtractor \<Rightarrow> BehaviorLog list \<Rightarrow> string
   \<Rightarrow> error + PolicySet" where
  "PolicyExtractor_extract py_str now self logs nm =
     (let total_n = length logs
      in if total_n = 0 then make_PolicySet now (Some nm) (Some 0) None None
         else
           let action_counts = Counter (map action logs);
               cs = count_logs py_str logs
           in then_do (score_loop self total_n (fst cs) action_counts (snd cs) ([], 0)) (\<lambda>st.
                make_PolicySet now (Some nm) (Some (int total_n))
                  (Some (sorted_reverse confidence (fst st))) None))"

text \<open>
  An instance of the parameter \<open>py_str\<close> for example inputs: \<^verbatim>\<open>str()\<close> of a text is the
  text itself. The examples below hold text values only.
\<close>

fun str_of_text :: "pyval \<Rightarrow> string" where
  "str_of_text (PStr s) = s"
| "str_of_text v = []"

subsection \<open>The structured document of a policy set\<close>













subsection \<open>What the extractor computes\<close>

text \<open>
  The single pass over the input enumerates, log by log and context item by context
  item, the triples (key, text of the value, action).
\<close>

definition observed :: "(pyval \<Rightarrow> string) \<Rightarrow> BehaviorLog \<Rightarrow> (string \<times> string \<times> string) list" where
  "observed py_str entry =
     map (\<lambda>item. (fst item, py_str (snd item), action entry)) (context' entry)"

definition enumeration :: "(pyval \<Rightarrow> string) \<Rightarrow> BehaviorLog list \<Rightarrow> (string \<times> string \<times> string) list" where
  "enumeration py_str logs = concat (map (observed py_str) logs)"

text \<open>The distinct elements of a list in the order of their first occurrence.\<close>

primrec first_seen :: "'a list \<Rightarrow> 'a list" where
  "first_seen [] = []"
| "first_seen (x # xs) = x # filter (\<lambda>y. y \<noteq> x) (first_seen xs)"

text \<open>The keys of a dictionary are distinct.\<close>

definition well_formed :: "BehaviorLog list \<Rightarrow> bool" where
  "well_formed logs = list_all (\<lambda>entry. distinct (map fst (context' entry))) logs"

definition antecedent_of :: "string \<times> string \<times> string \<Rightarrow> string \<times> string" where
  "antecedent_of t = (fst t, fst (snd t))"

definition action_of :: "string \<times> string \<times> string \<Rightarrow> string" where
  "action_of t = snd (snd t)"

text \<open>Support, confidence and lift of a triple, before rounding.\<close>

definition support_of :: "(pyval \<Rightarrow> string) \<Rightarrow> BehaviorLog list \<Rightarrow> string \<times> string \<times> string \<Rightarrow> rat" where
  "support_of py_str logs t =
     of_nat (count_list (enumeration py_str logs) t) / of_nat (length logs)"

definition confidence_of :: "(pyval \<Rightarrow> string) \<Rightarrow> BehaviorLog list \<Rightarrow> string \<times> string \<times> string \<Rightarrow> rat" where
  "confidence_of py_str logs t =
     of_nat (count_list (enumeration py_str logs) t)
     / of_nat (count_list (map antecedent_of (enumeration py_str logs)) (antecedent_of t))"

definition lift_of :: "(pyval \<Rightarrow> string) \<Rightarrow> BehaviorLog list \<Rightarrow> string \<times> string \<times> string \<Rightarrow> rat" where
  "lift_of py_str logs t =
     confidence_of py_str logs t
     / (of_nat (count_list (map action logs) (action_of t)) / of_nat (length logs))"

definition passes :: "(pyval \<Rightarrow> string) \<Rightarrow> PolicyExtractor \<Rightarrow> BehaviorLog list \<Rightarrow> string \<times> string \<times> string \<Rightarrow> bool" where
  "passes py_str self logs t \<longleftrightarrow>
     min_support self \<le> support_of py_str logs t
     \<and> min_confidence self \<le> confidence_of py_str logs t
     \<and> min_lift self \<le> lift_of py_str logs t"

text \<open>The triples that clear the three thresholds, in the order of their discovery.\<close>

definition survivors :: "(pyval \<Rightarrow> string) \<Rightarrow> PolicyExtractor \<Rightarrow> BehaviorLog list \<Rightarrow> (string \<times> string \<times> string) list" where
  "survivors py_str self logs =
     filter (passes py_str self logs) (first_seen (enumeration py_str logs))"

definition policy_of :: "(pyval \<Rightarrow> string) \<Rightarrow> BehaviorLog list \<Rightarrow> nat \<times> (string \<times> string \<times> string) \<Rightarrow> MinedPolicy" where
  "policy_of py_str logs it =
     \<lparr> policy_id = ''policy_'' @ fmt_04d (fst it),
       antecedent = [(fst (snd it), PStr (fst (snd (snd it))))],
       consequent = action_of (snd it),
       support = py_round (support_of py_str logs (snd it)) 6,
       confidence = py_round (confidence_of py_str logs (snd it)) 6,
       lift = py_round (lift_of py_str logs (snd it)) 6,
       description =
         describe (fst (snd it)) (fst (snd (snd it))) (action_of (snd it))
           (support_of py_str logs (snd it)) (confidence_of py_str logs (snd it))
           (lift_of py_str logs (snd it)) \<rparr>"

text \<open>The policies in the order of their discovery, numbered from 1.\<close>

definition mined :: "(pyval \<Rightarrow> string) \<Rightarrow> PolicyExtractor \<Rightarrow> BehaviorLog list \<Rightarrow> MinedPolicy list" where
  "mined py_str self logs =
     map (policy_of py_str logs) (enumerate 1 (survivors py_str self logs))"

text \<open>The triple that a policy is about.\<close>

definition triple_of :: "MinedPolicy \<Rightarrow> (string \<times> pyval) list \<times> string" where
  "triple_of p = (antecedent p, consequent p)"

definition rule_of :: "string \<times> string \<times> string \<Rightarrow> (string \<times> pyval) list \<times> string" where
  "rule_of t = ([(fst t, PStr (fst (snd t)))], action_of t)"


text \<open>Example inputs.\<close>

definition example_log :: "string \<Rightarrow> string \<Rightarrow> string \<Rightarrow> string \<Rightarrow> BehaviorLog" where
  "example_log lid k v act =
     \<lparr> log_id = lid, agent_id = ''agent1'', timestamp = ''2025-01-01T00:00:00'', action = act,
       context' = [(k, PStr v)], outcome = ''success'' \<rparr>"

definition example_logs :: "BehaviorLog list" where
  "example_logs =
     [example_log ''l1'' ''role'' ''admin'' ''read'',
      example_log ''l2'' ''role'' ''admin'' ''write'',
      example_log ''l3'' ''role'' ''editor'' ''edit'']"

definition no_thresholds :: PolicyExtractor where
  "no_thresholds = \<lparr> min_support = 0, min_confidence = 0, min_lift = 0 \<rparr>"


definition half_support :: PolicyExtractor where
  "half_support = \<lparr> min_support = 1 / 2, min_confidence = 0, min_lift = 0 \<rparr>"



section \<open>Properties\<close>

subsection \<open>Counters and the counting pass\<close>

lemma first_seen_set [simp]: "set (first_seen xs) = set xs"
  by (induction xs) auto

lemma first_seen_distinct [simp]: "distinct (first_seen xs)"
  by (induction xs) auto

lemma first_seen_snoc:
  "first_seen (xs @ [x]) = (if x \<in> set xs then first_seen xs else first_seen xs @ [x])"
  by (induction xs) auto

lemma counter_incr_map:
  "distinct ks \<Longrightarrow>
   counter_incr x (map (\<lambda>k. (k, f k)) ks) =
     (if x \<in> set ks then map (\<lambda>k. (k, if k = x then f k + 1 else f k)) ks
      else map (\<lambda>k. (k, f k)) ks @ [(x, 1)])"
  by (induction ks) auto

lemma Counter_snoc: "Counter (xs @ [x]) = counter_incr x (Counter xs)"
  by (simp add: Counter_def)

lemma Counter_eq: "Counter xs = map (\<lambda>k. (k, count_list xs k)) (first_seen xs)"
proof (induction xs rule: rev_induct)
  case Nil
  show ?case by (simp add: Counter_def)
next
  case (snoc x xs)
  show ?case
  proof (cases "x \<in> set xs")
    case True
    then show ?thesis
      by (simp add: Counter_snoc snoc counter_incr_map first_seen_snoc)
  next
    case False
    then show ?thesis
      by (auto simp add: Counter_snoc snoc counter_incr_map first_seen_snoc count_list_0_iff)
  qed
qed

lemma counter_get_Counter: "counter_get (Counter xs) k = count_list xs k"
proof (cases "k \<in> set xs")
  case True
  then show ?thesis
    by (simp add: counter_get_def Counter_eq map_of_map_restrict)
next
  case False
  then show ?thesis
    by (simp add: counter_get_def Counter_eq map_of_map_restrict count_list_0_iff)
qed

lemma fold_count_item:
  "fold (count_item py_str act) items cs =
     (fold counter_incr (map (\<lambda>item. (fst item, py_str (snd item))) items) (fst cs),
      fold counter_incr (map (\<lambda>item. (fst item, py_str (snd item), act)) items) (snd cs))"
  by (induction items arbitrary: cs) (simp_all add: count_item_def Let_def)

lemma map_antecedent_observed:
  "map antecedent_of (observed py_str entry) =
     map (\<lambda>item. (fst item, py_str (snd item))) (context' entry)"
  by (simp add: observed_def antecedent_of_def comp_def)

lemma count_log_eq:
  "count_log py_str entry cs =
     (fold counter_incr (map antecedent_of (observed py_str entry)) (fst cs),
      fold counter_incr (observed py_str entry) (snd cs))"
  by (simp add: count_log_def fold_count_item map_antecedent_observed) (simp add: observed_def)

lemma fold_count_log:
  "fold (count_log py_str) logs cs =
     (fold counter_incr (map antecedent_of (enumeration py_str logs)) (fst cs),
      fold counter_incr (enumeration py_str logs) (snd cs))"
proof (induction logs arbitrary: cs)
  case Nil
  show ?case by (simp add: enumeration_def)
next
  case (Cons entry logs)
  have e: "enumeration py_str (entry # logs) = observed py_str entry @ enumeration py_str logs"
    by (simp add: enumeration_def)
  have "fold (count_log py_str) (entry # logs) cs
          = fold (count_log py_str) logs (count_log py_str entry cs)"
    by simp
  also have "\<dots> = (fold counter_incr (map antecedent_of (enumeration py_str logs))
                      (fst (count_log py_str entry cs)),
                    fold counter_incr (enumeration py_str logs)
                      (snd (count_log py_str entry cs)))"
    by (rule Cons.IH)
  finally show ?case
    by (simp only: count_log_eq [of py_str entry cs] fst_conv snd_conv e map_append
          fold_append o_apply)
qed

lemma count_logs_eq:
  "count_logs py_str logs =
     (Counter (map antecedent_of (enumeration py_str logs)), Counter (enumeration py_str logs))"
  by (simp add: count_logs_def fold_count_log Counter_def)

lemma count_list_map_le: "count_list xs x \<le> count_list (map f xs) (f x)"
  by (induction xs) auto

lemma count_list_distinct_le: "distinct xs \<Longrightarrow> count_list xs x \<le> 1"
  by (induction xs) (auto simp: count_list_0_iff)

lemma count_observed_le:
  assumes "distinct (map fst (context' entry))"
  shows "count_list (observed py_str entry) t \<le> (if action entry = action_of t then 1 else 0)"
proof (cases "action entry = action_of t")
  case True
  have "count_list (observed py_str entry) t
          \<le> count_list (map fst (observed py_str entry)) (fst t)"
    by (rule count_list_map_le)
  also have "map fst (observed py_str entry) = map fst (context' entry)"
    by (simp add: observed_def comp_def)
  also have "count_list (map fst (context' entry)) (fst t) \<le> 1"
    using assms by (rule count_list_distinct_le)
  finally show ?thesis using True by simp
next
  case False
  then have "t \<notin> set (observed py_str entry)"
    by (auto simp: observed_def action_of_def)
  then show ?thesis using False by (simp add: count_list_0_iff)
qed

lemma count_enumeration_le_action:
  "well_formed logs \<Longrightarrow>
   count_list (enumeration py_str logs) t \<le> count_list (map action logs) (action_of t)"
proof (induction logs)
  case Nil
  show ?case by (simp add: enumeration_def)
next
  case (Cons entry logs)
  then have d: "distinct (map fst (context' entry))" and wf: "well_formed logs"
    by (simp_all add: well_formed_def)
  have "enumeration py_str (entry # logs) = observed py_str entry @ enumeration py_str logs"
    by (simp add: enumeration_def)
  then show ?case
    using count_observed_le [OF d, of py_str t] Cons.IH [OF wf]
    by (auto simp: count_list_append split: if_splits)
qed


subsection \<open>Rounding\<close>

lemma round_half_even_bounds:
  "x - 1 / 2 \<le> of_int (round_half_even x)" "of_int (round_half_even x) \<le> x + 1 / 2"
  unfolding round_half_even_def Let_def by (auto; linarith)+

lemma round_half_even_of_int [simp]: "round_half_even (of_int n) = n"
  by (simp add: round_half_even_def)

lemma round_half_even_mono:
  assumes "x \<le> y"
  shows "round_half_even x \<le> round_half_even y"
proof (cases "\<lfloor>x\<rfloor> = \<lfloor>y\<rfloor>")
  case True
  with assms show ?thesis
    unfolding round_half_even_def Let_def by (auto; linarith)
next
  case False
  with assms have lt: "\<lfloor>x\<rfloor> < \<lfloor>y\<rfloor>"
    using floor_mono [of x y] by linarith
  have "round_half_even x \<le> \<lfloor>x\<rfloor> + 1"
    unfolding round_half_even_def Let_def by auto
  moreover have "\<lfloor>y\<rfloor> \<le> round_half_even y"
    unfolding round_half_even_def Let_def by auto
  ultimately show ?thesis using lt by linarith
qed

lemma py_round_mono: "x \<le> y \<Longrightarrow> py_round x d \<le> py_round y d"
  unfolding py_round_def
  by (intro divide_right_mono round_half_even_mono mult_right_mono) (simp_all add: round_half_even_mono)

lemma py_round_0 [simp]: "py_round 0 d = 0"
  using round_half_even_of_int [of 0] by (simp add: py_round_def del: round_half_even_of_int)

lemma py_round_1 [simp]: "py_round 1 d = 1"
  using round_half_even_of_int [of "10 ^ d"] by (simp add: py_round_def del: round_half_even_of_int)


lemma py_round_upper: "py_round x d \<le> x + 1 / (2 * 10 ^ d)"
proof -
  have "of_int (round_half_even (x * 10 ^ d)) \<le> x * 10 ^ d + 1 / 2"
    by (rule round_half_even_bounds)
  then have "of_int (round_half_even (x * 10 ^ d)) / 10 ^ d \<le> (x * 10 ^ d + 1 / 2) / 10 ^ d"
    by (rule divide_right_mono) simp
  then show ?thesis
    by (simp add: py_round_def add_divide_distrib)
qed

lemma py_round_unit: "0 \<le> x \<Longrightarrow> x \<le> 1 \<Longrightarrow> 0 \<le> py_round x d \<and> py_round x d \<le> 1"
  using py_round_mono [of 0 x d] py_round_mono [of x 1 d] by simp

lemma py_round_nonneg: "0 \<le> x \<Longrightarrow> 0 \<le> py_round x d"
  using py_round_mono [of 0 x d] by simp


subsection \<open>The scoring pass\<close>

lemma counts_of_observed:
  assumes wf: "well_formed logs" and t: "t \<in> set (enumeration py_str logs)"
  shows "0 < count_list (enumeration py_str logs) t"
    and "count_list (enumeration py_str logs) t
           \<le> count_list (map antecedent_of (enumeration py_str logs)) (antecedent_of t)"
    and "count_list (enumeration py_str logs) t \<le> count_list (map action logs) (action_of t)"
    and "count_list (map action logs) (action_of t) \<le> length logs"
proof -
  have "count_list (enumeration py_str logs) t \<noteq> 0"
    using t by (simp add: count_list_0_iff)
  then show "0 < count_list (enumeration py_str logs) t"
    by simp
  show "count_list (enumeration py_str logs) t
           \<le> count_list (map antecedent_of (enumeration py_str logs)) (antecedent_of t)"
    by (rule count_list_map_le)
  show "count_list (enumeration py_str logs) t \<le> count_list (map action logs) (action_of t)"
    using wf by (rule count_enumeration_le_action)
  show "count_list (map action logs) (action_of t) \<le> length logs"
    using count_le_length [of "map action logs" "action_of t"] by simp
qed

lemma scores_of_observed:
  assumes wf: "well_formed logs" and t: "t \<in> set (enumeration py_str logs)"
  shows "0 < support_of py_str logs t" "support_of py_str logs t \<le> 1"
    and "0 < confidence_of py_str logs t" "confidence_of py_str logs t \<le> 1"
    and "0 < lift_of py_str logs t"
proof -
  note c = counts_of_observed [OF wf t]
  from c have n: "0 < length logs" by linarith
  from c have a: "0 < count_list (map antecedent_of (enumeration py_str logs)) (antecedent_of t)"
    by linarith
  from c have f: "0 < count_list (map action logs) (action_of t)" by linarith
  show "0 < support_of py_str logs t"
    using c(1) n by (simp add: support_of_def)
  show "support_of py_str logs t \<le> 1"
    using c n by (simp add: support_of_def)
  show "0 < confidence_of py_str logs t"
    using c(1) a by (simp add: confidence_of_def)
  then show "0 < lift_of py_str logs t"
    using f n by (simp add: lift_of_def)
  show "confidence_of py_str logs t \<le> 1"
    using c(2) a by (simp add: confidence_of_def)
qed

lemma score_item_eq:
  assumes wf: "well_formed logs" and t: "t \<in> set (enumeration py_str logs)"
  shows "score_item self (length logs) (Counter (map antecedent_of (enumeration py_str logs)))
           (Counter (map action logs)) (t, count_list (enumeration py_str logs) t) st =
         Inr (if passes py_str self logs t
              then (fst st @ [policy_of py_str logs (snd st + 1, t)], snd st + 1)
              else st)"
proof -
  note c = counts_of_observed [OF wf t]
  note s = scores_of_observed [OF wf t]
  from c have n: "0 < length logs" by linarith
  from c have a: "0 < count_list (map antecedent_of (enumeration py_str logs)) (antecedent_of t)"
    by linarith
  from c have f: "0 < count_list (map action logs) (action_of t)" by linarith
  have key: "(fst t, fst (snd t)) = antecedent_of t" "snd (snd t) = action_of t"
    by (simp_all add: antecedent_of_def action_of_def)
  have sup: "rat_of_nat (count_list (enumeration py_str logs) t) / rat_of_nat (length logs)
               = support_of py_str logs t"
    by (simp add: support_of_def)
  have conf: "rat_of_nat (count_list (enumeration py_str logs) t)
               / rat_of_nat (count_list (map antecedent_of (enumeration py_str logs)) (antecedent_of t))
               = confidence_of py_str logs t"
    by (simp add: confidence_of_def)
  have lft: "confidence_of py_str logs t * rat_of_nat (length logs)
               / rat_of_nat (count_list (map action logs) (action_of t))
               = lift_of py_str logs t"
    by (simp add: lift_of_def)
  have fr: "0 < rat_of_nat (count_list (map action logs) (action_of t)) / rat_of_nat (length logs)"
    using f n by simp
  have r: "0 \<le> py_round (support_of py_str logs t) 6" "py_round (support_of py_str logs t) 6 \<le> 1"
     "0 \<le> py_round (confidence_of py_str logs t) 6" "py_round (confidence_of py_str logs t) 6 \<le> 1"
     "0 \<le> py_round (lift_of py_str logs t) 6"
    using s py_round_unit [of "support_of py_str logs t" 6]
      py_round_unit [of "confidence_of py_str logs t" 6]
      py_round_nonneg [of "lift_of py_str logs t" 6]
    by simp_all
  show ?thesis
    using n a f fr r
    by (simp add: score_item_def Let_def then_do_def py_truediv_def counter_get_Counter key
          sup conf lft make_MinedPolicy_def failed_def passes_def policy_of_def not_less)
qed


lemma score_loop_eq:
  assumes wf: "well_formed logs" and ts: "set ts \<subseteq> set (enumeration py_str logs)"
  shows "score_loop self (length logs) (Counter (map antecedent_of (enumeration py_str logs)))
           (Counter (map action logs))
           (map (\<lambda>t. (t, count_list (enumeration py_str logs) t)) ts) st =
         Inr (fst st @ map (policy_of py_str logs)
                         (enumerate (snd st + 1) (filter (passes py_str self logs) ts)),
              snd st + length (filter (passes py_str self logs) ts))"
  using ts
proof (induction ts arbitrary: st)
  case Nil
  show ?case by simp
next
  case (Cons t ts)
  then have t: "t \<in> set (enumeration py_str logs)"
    and ts: "set ts \<subseteq> set (enumeration py_str logs)"
    by simp_all
  show ?case
    by (simp add: score_item_eq [OF wf t] then_do_def Cons.IH [OF ts])
qed

lemma extract_eq:
  assumes wf: "well_formed logs"
  shows "PolicyExtractor_extract py_str now self logs nm =
         Inr \<lparr> name = nm, source_logs = int (length logs),
               policies = sorted_reverse confidence (mined py_str self logs),
               generated_at = now \<rparr>"
proof (cases "logs = []")
  case True
  then show ?thesis
    by (simp add: PolicyExtractor_extract_def make_PolicySet_def failed_def mined_def
          survivors_def enumeration_def sorted_reverse_def)
next
  case False
  have "score_loop self (length logs) (Counter (map antecedent_of (enumeration py_str logs)))
           (Counter (map action logs)) (Counter (enumeration py_str logs)) ([], 0) =
        Inr (mined py_str self logs, length (survivors py_str self logs))"
    unfolding Counter_eq [of "enumeration py_str logs"]
    using score_loop_eq [OF wf, of "first_seen (enumeration py_str logs)" py_str self "([], 0)"]
    by (simp add: mined_def survivors_def)
  with False show ?thesis
    by (simp add: PolicyExtractor_extract_def Let_def count_logs_eq then_do_def
          make_PolicySet_def failed_def)
qed

subsection \<open>Numbering and sorting\<close>

lemma policy_id_mined:
  "map policy_id (mined py_str self logs) =
     map (\<lambda>i. ''policy_'' @ fmt_04d i) [1..<Suc (length (survivors py_str self logs))]"
proof -
  have "map policy_id (mined py_str self logs)
          = map ((\<lambda>i. ''policy_'' @ fmt_04d i) \<circ> fst) (enumerate 1 (survivors py_str self logs))"
    by (simp add: mined_def policy_of_def comp_def)
  also have "\<dots> = map (\<lambda>i. ''policy_'' @ fmt_04d i)
                     (map fst (enumerate 1 (survivors py_str self logs)))"
    by (simp only: map_map)
  also have "map fst (enumerate 1 (survivors py_str self logs))
               = [1..<Suc (length (survivors py_str self logs))]"
    by (simp add: map_fst_enumerate del: upt_Suc)
  finally show ?thesis .
qed

lemma triple_of_mined:
  "map triple_of (mined py_str self logs) = map rule_of (survivors py_str self logs)"
proof -
  have "map triple_of (mined py_str self logs)
          = map (rule_of \<circ> snd) (enumerate 1 (survivors py_str self logs))"
    by (simp add: mined_def policy_of_def triple_of_def rule_of_def comp_def)
  also have "\<dots> = map rule_of (map snd (enumerate 1 (survivors py_str self logs)))"
    by (simp only: map_map)
  finally show ?thesis
    by (simp only: map_snd_enumerate)
qed

lemma length_mined: "length (mined py_str self logs) = length (survivors py_str self logs)"
  by (simp add: mined_def)

lemma nth_mined:
  "i < length (survivors py_str self logs) \<Longrightarrow>
   mined py_str self logs ! i = policy_of py_str logs (Suc i, survivors py_str self logs ! i)"
  by (simp add: mined_def nth_enumerate_eq)

lemma set_sorted_reverse [simp]: "set (sorted_reverse key xs) = set xs"
  by (simp add: sorted_reverse_def)

lemma length_sorted_reverse [simp]: "length (sorted_reverse key xs) = length xs"
  by (simp add: sorted_reverse_def)

lemma sorted_sorted_reverse: "sorted_wrt (\<lambda>x y. key y \<le> key x) (sorted_reverse key xs)"
proof -
  have "sorted (map (\<lambda>x. - key x) (sort_key (\<lambda>x. - key x) xs))"
    by (rule sorted_sort_key)
  then show ?thesis
    by (simp add: sorted_reverse_def sorted_map)
qed

lemma sorted_reverse_stable:
  "filter (\<lambda>x. key x = c) (sorted_reverse key xs) = filter (\<lambda>x. key x = c) xs"
  using sort_key_stable [of "\<lambda>x. - key x" "- c" xs] by (simp add: sorted_reverse_def)

lemma mset_sorted_reverse [simp]: "mset (sorted_reverse key xs) = mset xs"
  by (simp add: sorted_reverse_def)

section \<open>The claims\<close>

text \<open>
  A run of the extractor on a well-formed input returns the policy set described by
  \<open>extract_eq\<close>: the policies are \<open>mined\<close>, the surviving triples in the order of their
  discovery, numbered from 1 in that order, and then sorted.
\<close>

subsection \<open>C1: the order in which identifiers are assigned\<close>

text \<open>
  C1 (as amended). The identifiers \<^verbatim>\<open>policy_0001\<close>, \<^verbatim>\<open>policy_0002\<close>, ... are assigned
  during the scoring pass, in the order in which the surviving triples were discovered:
  the \<open>i\<close>-th surviving triple carries the \<open>i\<close>-th identifier. The returned sequence is
  the stable sort, by descending confidence, of the policies numbered in this way, so
  the identifiers of the returned sequence follow the discovery order and not the
  sorted order.
\<close>

theorem policy_id_follows_discovery_order:
  assumes "well_formed logs"
  shows "\<exists>ps. PolicyExtractor_extract py_str now self logs nm = Inr ps
           \<and> policies ps = sorted_reverse confidence (mined py_str self logs)
           \<and> map policy_id (mined py_str self logs)
               = map (\<lambda>i. ''policy_'' @ fmt_04d i) [1..<Suc (length (mined py_str self logs))]
           \<and> map triple_of (mined py_str self logs) = map rule_of (survivors py_str self logs)
           \<and> (\<forall>i < length (survivors py_str self logs).
                 \<exists>p \<in> set (policies ps).
                   policy_id p = ''policy_'' @ fmt_04d (Suc i)
                   \<and> triple_of p = rule_of (survivors py_str self logs ! i))"
proof -
  have "\<exists>p \<in> set (mined py_str self logs).
          policy_id p = ''policy_'' @ fmt_04d (Suc i)
          \<and> triple_of p = rule_of (survivors py_str self logs ! i)"
    if "i < length (survivors py_str self logs)" for i
  proof -
    from that have "mined py_str self logs ! i \<in> set (mined py_str self logs)"
      by (simp add: length_mined)
    moreover have "policy_id (mined py_str self logs ! i) = ''policy_'' @ fmt_04d (Suc i)"
      using that by (simp add: nth_mined policy_of_def)
    moreover have "triple_of (mined py_str self logs ! i) = rule_of (survivors py_str self logs ! i)"
      using that by (simp add: nth_mined policy_of_def triple_of_def rule_of_def)
    ultimately show ?thesis by blast
  qed
  then show ?thesis
    by (simp add: extract_eq [OF assms] policy_id_mined triple_of_mined length_mined)
qed

text \<open>
  On the example input the three triples are discovered with confidences 1/2, 1/2
  and 1, and the sort moves the third one to the front.
\<close>

theorem policy_id_follows_discovery_order_witness:
  "well_formed example_logs
   \<and> (\<exists>ps. PolicyExtractor_extract str_of_text ''2025-01-01T00:00:00'' no_thresholds
              example_logs ''Mined Policy Set'' = Inr ps
           \<and> map policy_id (policies ps) = [''policy_0003'', ''policy_0001'', ''policy_0002'']
           \<and> map policy_id (mined str_of_text no_thresholds example_logs)
               = [''policy_0001'', ''policy_0002'', ''policy_0003''])"
proof -
  have wf: "well_formed example_logs"
    by code_simp
  have s: "sorted_reverse confidence (mined str_of_text no_thresholds example_logs)
         = [mined str_of_text no_thresholds example_logs ! 2,
            mined str_of_text no_thresholds example_logs ! 0,
            mined str_of_text no_thresholds example_logs ! 1]"
    by code_simp
  have m: "map policy_id (mined str_of_text no_thresholds example_logs)
               = [''policy_0001'', ''policy_0002'', ''policy_0003'']"
    by code_simp
  have n: "map policy_id [mined str_of_text no_thresholds example_logs ! 2,
            mined str_of_text no_thresholds example_logs ! 0,
            mined str_of_text no_thresholds example_logs ! 1] = [''policy_0003'', ''policy_0001'', ''policy_0002'']"
    by code_simp
  from policy_id_follows_discovery_order [OF wf, of str_of_text "''2025-01-01T00:00:00''"
      no_thresholds "''Mined Policy Set''"]
  show ?thesis
    using wf m n s by auto
qed

text \<open>
  The claim as stated (the \<open>i\<close>-th returned policy carries the \<open>i\<close>-th identifier) fails
  there: the first returned policy is \<^verbatim>\<open>policy_0003\<close>.
\<close>

theorem policy_id_sorted_order_counterexample:
  "map_sum id (map policy_id \<circ> policies)
     (PolicyExtractor_extract str_of_text ''2025-01-01T00:00:00'' no_thresholds
        example_logs ''Mined Policy Set'')
   = Inr [''policy_0003'', ''policy_0001'', ''policy_0002'']"
  by code_simp

subsection \<open>C2: the thresholds and the stored values\<close>






subsection \<open>C3: the order of the returned policies\<close>

lemma rule_of_inj: "inj rule_of"
  by (auto simp: inj_def rule_of_def action_of_def prod_eq_iff)

lemma policies_extract:
  "well_formed logs \<Longrightarrow> PolicyExtractor_extract py_str now self logs nm = Inr ps \<Longrightarrow>
   policies ps = sorted_reverse confidence (mined py_str self logs)"
  by (auto simp: extract_eq)

text \<open>
  C3. The returned policies are sorted by their (stored) confidence in non-increasing
  order, and the sort is stable: for every confidence value, the returned policies with
  that confidence, read from first to last, form a subsequence of the triples in the
  order of their first discovery during the single pass.
\<close>

theorem sorted_by_confidence_stable:
  assumes "well_formed logs"
    and "PolicyExtractor_extract py_str now self logs nm = Inr ps"
  shows "sorted_wrt (\<lambda>p q. confidence q \<le> confidence p) (policies ps)
         \<and> distinct (map rule_of (first_seen (enumeration py_str logs)))
         \<and> (\<forall>c. subseq (map triple_of (filter (\<lambda>p. confidence p = c) (policies ps)))
                        (map rule_of (first_seen (enumeration py_str logs))))"
proof -
  have ps: "policies ps = sorted_reverse confidence (mined py_str self logs)"
    using assms by (rule policies_extract)
  have "subseq (map triple_of (filter (\<lambda>p. confidence p = c) (policies ps)))
          (map rule_of (first_seen (enumeration py_str logs)))" for c
  proof -
    have "subseq (map triple_of (filter (\<lambda>p. confidence p = c) (mined py_str self logs)))
            (map triple_of (mined py_str self logs))"
      by (intro subseq_map subseq_filter_left)
    also have "map triple_of (mined py_str self logs) = map rule_of (survivors py_str self logs)"
      by (rule triple_of_mined)
    also have "subseq (map rule_of (survivors py_str self logs))
                 (map rule_of (first_seen (enumeration py_str logs)))"
      unfolding survivors_def by (intro subseq_map subseq_filter_left)
    finally show ?thesis
      by (simp add: ps sorted_reverse_stable)
  qed
  moreover have "distinct (map rule_of (first_seen (enumeration py_str logs)))"
    by (simp add: distinct_map inj_on_subset [OF rule_of_inj])
  ultimately show ?thesis
    by (simp add: ps sorted_sorted_reverse)
qed

theorem sorted_by_confidence_stable_witness:
  "well_formed example_logs
   \<and> (\<exists>ps. PolicyExtractor_extract str_of_text ''2025-01-01T00:00:00'' no_thresholds
              example_logs ''Mined Policy Set'' = Inr ps
            \<and> sorted_wrt (\<lambda>p q. confidence q \<le> confidence p) (policies ps)
            \<and> subseq (map triple_of (filter (\<lambda>p. confidence p = 1 / 2) (policies ps)))
                 (map rule_of (first_seen (enumeration str_of_text example_logs))))"
proof -
  have wf: "well_formed example_logs"
    by code_simp
  obtain ps where e: "PolicyExtractor_extract str_of_text ''2025-01-01T00:00:00'' no_thresholds
      example_logs ''Mined Policy Set'' = Inr ps"
    using extract_eq [OF wf] by blast
  from sorted_by_confidence_stable [OF wf e] wf e show ?thesis
    by blast
qed

subsection \<open>C4: two runs on the same input\<close>

text \<open>
  C4 (as amended). Two runs of the extractor on the same input, configuration and name
  return policy sets that are equal in \<open>name\<close>, \<open>source_logs\<close> and \<open>policies\<close> (with
  every \<open>policy_id\<close> and \<open>description\<close>); \<open>generated_at\<close> is the reading of the clock
  at each run. The run at time \<open>now'\<close> returns what the run at time \<open>now\<close> returns,
  with \<open>generated_at\<close> set to \<open>now'\<close>.
\<close>

theorem runs_differ_only_in_generated_at:
  "PolicyExtractor_extract py_str now' self logs nm =
     map_sum id (generated_at_update (\<lambda>_. now'))
       (PolicyExtractor_extract py_str now self logs nm)"
  by (simp add: PolicyExtractor_extract_def Let_def make_PolicySet_def failed_def then_do_def
        split: sum.splits)

text \<open>
  The claim as stated (equal in every field) fails for two runs one second apart.
\<close>

theorem two_runs_counterexample:
  "PolicyExtractor_extract str_of_text ''2025-01-01T00:00:00'' no_thresholds example_logs
     ''Mined Policy Set''
   \<noteq> PolicyExtractor_extract str_of_text ''2025-01-01T00:00:01'' no_thresholds example_logs
       ''Mined Policy Set''"
proof -
  have wf: "well_formed example_logs"
    by code_simp
  show ?thesis
    by (simp add: extract_eq [OF wf])
qed

subsection \<open>C5: the extractor never raises\<close>





subsection \<open>C6: raising a threshold\<close>

lemma length_filter_mono:
  "(\<And>x. x \<in> set xs \<Longrightarrow> P x \<Longrightarrow> Q x) \<Longrightarrow> length (filter P xs) \<le> length (filter Q xs)"
  by (induction xs) auto

text \<open>
  C6. If no threshold of \<open>self'\<close> is below the one of \<open>self\<close> (in particular, if one
  of the three is raised and the other two are kept), then on every input the extractor
  returns at most as many policies with \<open>self'\<close> as with \<open>self\<close>.
\<close>

theorem raising_thresholds_monotone:
  assumes "well_formed logs"
    and "min_support self \<le> min_support self'"
    and "min_confidence self \<le> min_confidence self'"
    and "min_lift self \<le> min_lift self'"
  shows "\<exists>ps ps'. PolicyExtractor_extract py_str now self logs nm = Inr ps
           \<and> PolicyExtractor_extract py_str now self' logs nm = Inr ps'
           \<and> length (policies ps') \<le> length (policies ps)"
proof -
  have "passes py_str self logs t" if "passes py_str self' logs t" for t
    using that assms(2-4) by (auto simp: passes_def)
  then have "length (survivors py_str self' logs) \<le> length (survivors py_str self logs)"
    unfolding survivors_def by (intro length_filter_mono)
  then show ?thesis
    by (simp add: extract_eq [OF assms(1)] length_mined)
qed

theorem raising_thresholds_monotone_witness:
  "well_formed example_logs
   \<and> min_support no_thresholds \<le> min_support half_support
   \<and> min_confidence no_thresholds \<le> min_confidence half_support
   \<and> min_lift no_thresholds \<le> min_lift half_support
   \<and> (\<exists>ps ps'. PolicyExtractor_extract str_of_text ''2025-01-01T00:00:00'' no_thresholds
                   example_logs ''Mined Policy Set'' = Inr ps
               \<and> PolicyExtractor_extract str_of_text ''2025-01-01T00:00:00'' half_support
                   example_logs ''Mined Policy Set'' = Inr ps'
               \<and> length (policies ps') \<le> length (policies ps))"
proof -
  have wf: "well_formed example_logs"
    by code_simp
  have th: "min_support no_thresholds \<le> min_support half_support"
    "min_confidence no_thresholds \<le> min_confidence half_support"
    "min_lift no_thresholds \<le> min_lift half_support"
    by (simp_all add: no_thresholds_def half_support_def)
  from raising_thresholds_monotone [OF wf th, of str_of_text "''2025-01-01T00:00:00''"
      "''Mined Policy Set''"]
  show ?thesis using wf th by blast
qed

subsection \<open>C7: the description\<close>



subsection \<open>C8: the top-n view\<close>





subsection \<open>C9: the round trip through the structured document\<close>





subsection \<open>C10: identifiers are trimmed\<close>

text \<open>
  C10. In every behaviour log that has been built, \<open>log_id\<close>, \<open>agent_id\<close> and \<open>action\<close>
  are the supplied values without their leading and trailing whitespace.
\<close>

theorem identifiers_trimmed:
  assumes "make_BehaviorLog now lid aid ts act ctx out = Inr entry"
  shows "log_id entry = py_strip lid \<and> agent_id entry = py_strip aid
         \<and> action entry = py_strip act"
  using assms
  by (auto simp: make_BehaviorLog_def must_not_be_blank_def failed_validator_def validated_def
        Let_def split: if_splits)

theorem identifiers_trimmed_witness:
  "make_BehaviorLog ''2025-01-01T00:00:00'' ''  l1 '' '' agent_alpha'' None ''  read_file  ''
     None None
   = Inr \<lparr> log_id = ''l1'', agent_id = ''agent_alpha'', timestamp = ''2025-01-01T00:00:00'',
           action = ''read_file'', context' = [], outcome = ''success'' \<rparr>
   \<and> py_strip ''  l1 '' = ''l1'' \<and> py_strip '' agent_alpha'' = ''agent_alpha''
   \<and> py_strip ''  read_file  '' = ''read_file''"
proof -
  have e: "make_BehaviorLog ''2025-01-01T00:00:00'' ''  l1 '' '' agent_alpha'' None
             ''  read_file  '' None None
           = Inr \<lparr> log_id = ''l1'', agent_id = ''agent_alpha'',
                   timestamp = ''2025-01-01T00:00:00'', action = ''read_file'', context' = [],
                   outcome = ''success'' \<rparr>"
    by code_simp
  from identifiers_trimmed [OF e] e show ?thesis
    by simp
qed

end
